theory Spec2Isabelle
  imports Main
begin

section \<open>Bike factory management: the production resource ledger\<close>

text \<open>
  A shallow embedding of the stock-changing handlers of \<^verbatim>\<open>main.py\<close>:
  \<^verbatim>\<open>DashboardTab.record_station_completion\<close>, \<^verbatim>\<open>InventoryTab.replenish_stock\<close>,
  \<^verbatim>\<open>BikeAssemblyTab.assemble_bike\<close>, \<^verbatim>\<open>OrderEntryTab.submit_order\<close>,
  \<^verbatim>\<open>PendingOrdersTab.mark_completed\<close> and \<^verbatim>\<open>UserManagementTab.delete_user\<close>.
  The module-level dictionaries the handlers mutate are the fields of one record that
  every handler takes and returns. Message boxes and Python exceptions are values of the
  type \<open>result\<close>; the widgets a handler reads are its arguments.
\<close>

subsection \<open>Data model\<close>

text \<open>
  The dictionary literal built by \<^verbatim>\<open>submit_order\<close>: ten form fields and the status.
  The status is the string the source stores.
\<close>

record order =
  customer_name :: string
  contact_info :: string
  delivery_address :: string
  bike_model :: string
  bike_size :: string
  bike_color :: string
  wheel_size :: string
  gears :: string
  brakes :: string
  lights :: string
  status :: string

text \<open>The widgets of the order entry form, read by \<^verbatim>\<open>submit_order\<close>.\<close>

record order_form =
  customer_name_input :: string
  contact_info_input :: string
  delivery_address_input :: string
  bike_model_combo :: string
  bike_size_combo :: string
  bike_color_combo :: string
  bike_wheels_combo :: string
  gears_combo :: string
  brakes_combo :: string
  lights_combo :: string

text \<open>
  The global ledgers. Python integers are unbounded, hence \<open>int\<close>; a dictionary is a
  partial map, so that a missing key is \<open>None\<close>.
\<close>

record ledger =
  INVENTORY_DATA :: "string \<rightharpoonup> int"
  BIKE_INVENTORY :: "string \<rightharpoonup> int"
  ORDERS :: "order list"
  PRODUCTION_STATUS :: "string \<rightharpoonup> int"

text \<open>
  What a handler reports. The first eight constructors are the warning boxes of the
  source, with the values their messages print; \<open>KeyError\<close> is the Python exception
  raised by subscripting a dictionary with a missing key.
\<close>

datatype error =
    NotEnoughInventory string string int int
  | NotEnoughComponents string string int int
  | UnknownRequirement string
  | NoPartsRecipe string
  | NotEnoughParts string string int int
  | NoPreAssembledBikes string
  | UserNotFound string
  | CannotDeleteAdmin
  | KeyError string

text \<open>
  \<open>Success\<close>: the handler ran to its end. \<open>Failure e\<close>: it showed the warning \<open>e\<close> and
  returned, or raised \<open>e\<close>. \<open>NoAction\<close>: it returned without any message and without
  touching the state.
\<close>

datatype result = Success | Failure error | NoAction

fun is_failure :: "result \<Rightarrow> bool" where
  "is_failure (Failure e) = True"
| "is_failure Success = False"
| "is_failure NoAction = False"

text \<open>Python's \<^verbatim>\<open>d.get(key, default)\<close>.\<close>

definition dict_get :: "('k \<rightharpoonup> 'v) \<Rightarrow> 'k \<Rightarrow> 'v \<Rightarrow> 'v" where
  "dict_get d key dflt = (case d key of None \<Rightarrow> dflt | Some v \<Rightarrow> v)"

subsection \<open>Static tables and the initial configuration\<close>

text \<open>
  The inner dictionaries are iterated by the handlers, in insertion order, so they are
  association lists in the order of the source.
\<close>

definition BIKE_TYPE_PARTS :: "(string \<times> (string \<times> int) list) list" where
  "BIKE_TYPE_PARTS =
    [(''Sport'', [(''Tubular Steel'', 2), (''Wheels'', 2), (''Seats'', 1), (''Gears'', 1),
                  (''Brakes'', 1), (''Lights'', 1)]),
     (''Tour'', [(''Tubular Steel'', 3), (''Wheels'', 2), (''Seats'', 1), (''Gears'', 2),
                 (''Brakes'', 2), (''Lights'', 1)]),
     (''Commute'', [(''Tubular Steel'', 2), (''Wheels'', 2), (''Seats'', 1), (''Gears'', 1),
                    (''Brakes'', 1), (''Lights'', 1)]),
     (''Electric'', [(''Tubular Steel'', 2), (''Wheels'', 2), (''Seats'', 1), (''Gears'', 1),
                     (''Brakes'', 1), (''Lights'', 1), (''Motors'', 1)]),
     (''Offroad'', [(''Tubular Steel'', 3), (''Wheels'', 2), (''Seats'', 1), (''Gears'', 2),
                    (''Brakes'', 2), (''Lights'', 1), (''Shock Absorbers'', 2)])]"

definition STATION_REQUIREMENTS :: "(string \<times> (string \<times> int) list) list" where
  "STATION_REQUIREMENTS =
    [(''FrameWelded'', [(''Tubular Steel'', 2)]),
     (''ForkWelded'', [(''Tubular Steel'', 1)]),
     (''FrontForkAssembly'', [(''FrameWelded'', 1), (''ForkWelded'', 1)]),
     (''Painting'', [(''FrontForkAssembly'', 1)]),
     (''PedalAddition'', [(''Painting'', 1)]),
     (''WheelAddition'', [(''PedalAddition'', 1)]),
     (''ChainGear'', [(''WheelAddition'', 1)]),
     (''BrakeAddition'', [(''ChainGear'', 1)]),
     (''LightAddition'', [(''BrakeAddition'', 1)]),
     (''SeatInstallation'', [(''LightAddition'', 1)])]"

definition initial_inventory :: "(string \<times> int) list" where
  "initial_inventory =
    [(''Tubular Steel'', 20), (''Wheels'', 20), (''Seats'', 10), (''Gears'', 15),
     (''Brakes'', 15), (''Lights'', 10), (''Motors'', 5), (''Shock Absorbers'', 5)]"

definition initial_bike_inventory :: "(string \<times> int) list" where
  "initial_bike_inventory =
    [(''Sport'', 0), (''Tour'', 0), (''Commute'', 0), (''Electric'', 0), (''Offroad'', 0)]"

definition initial_production_status :: "(string \<times> int) list" where
  "initial_production_status =
    [(''FrameWelded'', 0), (''ForkWelded'', 0), (''FrontForkAssembly'', 0), (''Painting'', 0),
     (''PedalAddition'', 0), (''WheelAddition'', 0), (''ChainGear'', 0), (''BrakeAddition'', 0),
     (''LightAddition'', 0), (''SeatInstallation'', 0)]"

text \<open>The module-level values of the four ledgers when the program starts.\<close>

definition initial_ledger :: ledger where
  "initial_ledger =
    \<lparr>INVENTORY_DATA = map_of initial_inventory,
     BIKE_INVENTORY = map_of initial_bike_inventory,
     ORDERS = [],
     PRODUCTION_STATUS = map_of initial_production_status\<rparr>"

subsection \<open>Station completion\<close>

text \<open>
  The first loop of \<^verbatim>\<open>record_station_completion\<close>: the requirements in order, each
  looked up in \<^verbatim>\<open>INVENTORY_DATA\<close> first and in \<^verbatim>\<open>PRODUCTION_STATUS\<close> otherwise; the
  first shortage or unknown key ends the handler with its warning.
\<close>

fun check_requirements :: "ledger \<Rightarrow> string \<Rightarrow> (string \<times> int) list \<Rightarrow> error option" where
  "check_requirements s station_key [] = None"
| "check_requirements s station_key ((req_key, req_amount) # rest) =
     (case INVENTORY_DATA s req_key of
        Some have \<Rightarrow>
          if have < req_amount
          then Some (NotEnoughInventory station_key req_key req_amount have)
          else check_requirements s station_key rest
      | None \<Rightarrow>
          (case PRODUCTION_STATUS s req_key of
             Some have \<Rightarrow>
               if have < req_amount
               then Some (NotEnoughComponents station_key req_key req_amount have)
               else check_requirements s station_key rest
           | None \<Rightarrow> Some (UnknownRequirement req_key)))"

text \<open>
  The second loop: each amount is subtracted from \<^verbatim>\<open>INVENTORY_DATA\<close> when the key is
  there, and from \<^verbatim>\<open>PRODUCTION_STATUS\<close> otherwise, where a missing key raises. The
  ledger returned with an error is the one the exception leaves behind.
\<close>

fun deduct_requirements :: "ledger \<Rightarrow> (string \<times> int) list \<Rightarrow> error option \<times> ledger" where
  "deduct_requirements s [] = (None, s)"
| "deduct_requirements s ((req_key, req_amount) # rest) =
     (case INVENTORY_DATA s req_key of
        Some have \<Rightarrow>
          deduct_requirements
            (s\<lparr>INVENTORY_DATA := (INVENTORY_DATA s)(req_key \<mapsto> have - req_amount)\<rparr>) rest
      | None \<Rightarrow>
          (case PRODUCTION_STATUS s req_key of
             Some count \<Rightarrow>
               deduct_requirements
                 (s\<lparr>PRODUCTION_STATUS := (PRODUCTION_STATUS s)(req_key \<mapsto> count - req_amount)\<rparr>) rest
           | None \<Rightarrow> (Some (KeyError req_key), s)))"

text \<open>\<^verbatim>\<open>STATION_REQUIREMENTS.get(station_key, {})\<close>\<close>

definition station_requirements :: "string \<Rightarrow> (string \<times> int) list" where
  "station_requirements station_key =
     (case map_of STATION_REQUIREMENTS station_key of None \<Rightarrow> [] | Some reqs \<Rightarrow> reqs)"

definition record_station_completion :: "ledger \<Rightarrow> string \<Rightarrow> result \<times> ledger" where
  "record_station_completion s station_key =
     (let requirements = station_requirements station_key in
      case check_requirements s station_key requirements of
        Some e \<Rightarrow> (Failure e, s)
      | None \<Rightarrow>
          (case deduct_requirements s requirements of
             (Some e, s') \<Rightarrow> (Failure e, s')
           | (None, s') \<Rightarrow>
               (case PRODUCTION_STATUS s' station_key of
                  None \<Rightarrow> (Failure (KeyError station_key), s')
                | Some count \<Rightarrow>
                    (Success,
                     s'\<lparr>PRODUCTION_STATUS := (PRODUCTION_STATUS s')(station_key \<mapsto> count + 1)\<rparr>))))"

subsection \<open>Replenishing stock\<close>

text \<open>
  \<^verbatim>\<open>INVENTORY_DATA[component] += amount\<close>, with the component and the amount the two widgets
  hold. The spin box is created with \<^verbatim>\<open>setRange(1, 1000)\<close>.
\<close>

definition replenish_stock :: "ledger \<Rightarrow> string \<Rightarrow> int \<Rightarrow> result \<times> ledger" where
  "replenish_stock s component amount =
     (case INVENTORY_DATA s component of
        None \<Rightarrow> (Failure (KeyError component), s)
      | Some have \<Rightarrow>
          (Success, s\<lparr>INVENTORY_DATA := (INVENTORY_DATA s)(component \<mapsto> have + amount)\<rparr>))"

subsection \<open>Bike assembly\<close>

text \<open>The availability loop of \<^verbatim>\<open>assemble_bike\<close>, with \<^verbatim>\<open>INVENTORY_DATA.get(part, 0)\<close>.\<close>

fun check_parts :: "ledger \<Rightarrow> string \<Rightarrow> (string \<times> int) list \<Rightarrow> error option" where
  "check_parts s model [] = None"
| "check_parts s model ((part, needed) # rest) =
     (let have = dict_get (INVENTORY_DATA s) part 0 in
      if have < needed then Some (NotEnoughParts model part needed have)
      else check_parts s model rest)"

text \<open>The deduction loop: \<^verbatim>\<open>INVENTORY_DATA[part] -= needed\<close> raises on a missing key.\<close>

fun deduct_parts :: "ledger \<Rightarrow> (string \<times> int) list \<Rightarrow> error option \<times> ledger" where
  "deduct_parts s [] = (None, s)"
| "deduct_parts s ((part, needed) # rest) =
     (case INVENTORY_DATA s part of
        None \<Rightarrow> (Some (KeyError part), s)
      | Some have \<Rightarrow>
          deduct_parts (s\<lparr>INVENTORY_DATA := (INVENTORY_DATA s)(part \<mapsto> have - needed)\<rparr>) rest)"

definition assemble_bike :: "ledger \<Rightarrow> string \<Rightarrow> result \<times> ledger" where
  "assemble_bike s model =
     (case map_of BIKE_TYPE_PARTS model of
        None \<Rightarrow> (Failure (NoPartsRecipe model), s)
      | Some recipe \<Rightarrow>
          (case check_parts s model recipe of
             Some e \<Rightarrow> (Failure e, s)
           | None \<Rightarrow>
               (case deduct_parts s recipe of
                  (Some e, s') \<Rightarrow> (Failure e, s')
                | (None, s') \<Rightarrow>
                    (case BIKE_INVENTORY s' model of
                       None \<Rightarrow> (Failure (KeyError model), s')
                     | Some qty \<Rightarrow>
                         (Success,
                          s'\<lparr>BIKE_INVENTORY := (BIKE_INVENTORY s')(model \<mapsto> qty + 1)\<rparr>)))))"

subsection \<open>Orders\<close>

text \<open>\<^verbatim>\<open>submit_order\<close> builds the dictionary from the form and appends it; it has no check.\<close>

definition new_order :: "order_form \<Rightarrow> order" where
  "new_order f =
     \<lparr>customer_name = customer_name_input f,
      contact_info = contact_info_input f,
      delivery_address = delivery_address_input f,
      bike_model = bike_model_combo f,
      bike_size = bike_size_combo f,
      bike_color = bike_color_combo f,
      wheel_size = bike_wheels_combo f,
      gears = gears_combo f,
      brakes = brakes_combo f,
      lights = lights_combo f,
      status = ''Pending''\<rparr>"

definition submit_order :: "ledger \<Rightarrow> order_form \<Rightarrow> result \<times> ledger" where
  "submit_order s f = (Success, s\<lparr>ORDERS := ORDERS s @ [new_order f]\<rparr>)"

text \<open>\<^verbatim>\<open>[o for o in ORDERS if o.get("status") == "Pending"]\<close>\<close>

definition pending_orders :: "order list \<Rightarrow> order list" where
  "pending_orders os = filter (\<lambda>x. status x = ''Pending'') os"

text \<open>
  \<^verbatim>\<open>order["status"] = "Completed"\<close>, where \<^verbatim>\<open>order\<close> is \<^verbatim>\<open>pending_orders[row_index]\<close>:
  the list comprehension holds the dictionaries of \<^verbatim>\<open>ORDERS\<close> themselves, so the
  assignment changes the entry of \<^verbatim>\<open>ORDERS\<close> that is the \<^verbatim>\<open>row_index\<close>-th pending one.
\<close>

fun set_completed :: "order list \<Rightarrow> nat \<Rightarrow> order list" where
  "set_completed [] row_index = []"
| "set_completed (x # os) row_index =
     (if status x = ''Pending''
      then (case row_index of
              0 \<Rightarrow> x\<lparr>status := ''Completed''\<rparr> # os
            | Suc r \<Rightarrow> x # set_completed os r)
      else x # set_completed os row_index)"

text \<open>
  \<^verbatim>\<open>mark_completed\<close>. The row index is the one \<^verbatim>\<open>refresh_table\<close> takes from
  \<^verbatim>\<open>enumerate\<close>, a natural number. A row outside the pending list falls through the
  \<^verbatim>\<open>if\<close> with nothing done.
\<close>

definition mark_completed :: "ledger \<Rightarrow> nat \<Rightarrow> result \<times> ledger" where
  "mark_completed s row_index =
     (let pending = pending_orders (ORDERS s) in
      if row_index < length pending then
        (let model = bike_model (pending ! row_index);
             have = dict_get (BIKE_INVENTORY s) model 0 in
         if have < 1 then (Failure (NoPreAssembledBikes model), s)
         else (Success,
               s\<lparr>BIKE_INVENTORY := (BIKE_INVENTORY s)(model \<mapsto> have - 1),
                 ORDERS := set_completed (ORDERS s) row_index\<rparr>))
      else (NoAction, s))"

subsection \<open>User management\<close>

text \<open>
  \<^verbatim>\<open>delete_user\<close> on the user dictionary (user name to password and role); \<open>confirmed\<close>
  is the answer to the confirmation dialog.
\<close>

definition delete_user ::
  "(string \<rightharpoonup> string \<times> string) \<Rightarrow> string \<Rightarrow> bool \<Rightarrow> result \<times> (string \<rightharpoonup> string \<times> string)" where
  "delete_user USER_DB uname confirmed =
     (if USER_DB uname = None then (Failure (UserNotFound uname), USER_DB)
      else if uname = ''admin'' then (Failure CannotDeleteAdmin, USER_DB)
      else if confirmed then (Success, USER_DB(uname := None))
      else (NoAction, USER_DB))"

definition initial_user_db :: "string \<rightharpoonup> string \<times> string" where
  "initial_user_db =
     map_of [(''admin'', (''password'', ''Admin'')),
             (''worker1'', (''w123'', ''ProductionWorker'')),
             (''manager1'', (''m123'', ''InventoryManager'')),
             (''sales1'', (''s123'', ''Sales''))]"

subsection \<open>Sequences of operations\<close>

text \<open>The five stock-changing operations, with the inputs their handlers read.\<close>

datatype operation =
    AddStock string int
  | CompleteStation string
  | Assemble string
  | SubmitOrder order_form
  | Fulfill nat

fun apply_operation :: "ledger \<Rightarrow> operation \<Rightarrow> result \<times> ledger" where
  "apply_operation s (AddStock component amount) = replenish_stock s component amount"
| "apply_operation s (CompleteStation station_key) = record_station_completion s station_key"
| "apply_operation s (Assemble model) = assemble_bike s model"
| "apply_operation s (SubmitOrder f) = submit_order s f"
| "apply_operation s (Fulfill row_index) = mark_completed s row_index"

text \<open>
  The handlers run one after the other on the shared ledgers; a warning or an exception in
  one of them leaves the program running on the ledgers as they then are.
\<close>

fun run :: "ledger \<Rightarrow> operation list \<Rightarrow> ledger" where
  "run s [] = s"
| "run s (op # ops) = run (snd (apply_operation s op)) ops"

text \<open>The amounts the replenish spin box can hold: \<^verbatim>\<open>setRange(1, 1000)\<close>.\<close>

fun valid_operation :: "operation \<Rightarrow> bool" where
  "valid_operation (AddStock component amount) = (1 \<le> amount \<and> amount \<le> 1000)"
| "valid_operation (CompleteStation station_key) = True"
| "valid_operation (Assemble model) = True"
| "valid_operation (SubmitOrder f) = True"
| "valid_operation (Fulfill row_index) = True"

subsection \<open>Requirement resolution, in the words of the specification\<close>

text \<open>
  The resolution order the specification gives for a requirement: the parts ledger first,
  the stations' completed counts only if the id is absent there, and no source if it is
  absent from both. These definitions follow the specification; the handler is compared
  with them below.
\<close>

datatype source = PartsLedger | StationCounts

definition spec_resolve :: "ledger \<Rightarrow> string \<Rightarrow> source option" where
  "spec_resolve s resource_id =
     (if resource_id \<in> dom (INVENTORY_DATA s) then Some PartsLedger
      else if resource_id \<in> dom (PRODUCTION_STATUS s) then Some StationCounts
      else None)"

text \<open>
  The quantity held by a source, and the shortage warning of the handler for that source.
\<close>

fun spec_available :: "ledger \<Rightarrow> source \<Rightarrow> string \<Rightarrow> int" where
  "spec_available s PartsLedger resource_id = dict_get (INVENTORY_DATA s) resource_id 0"
| "spec_available s StationCounts resource_id = dict_get (PRODUCTION_STATUS s) resource_id 0"

fun spec_insufficient :: "source \<Rightarrow> string \<Rightarrow> string \<Rightarrow> int \<Rightarrow> int \<Rightarrow> error" where
  "spec_insufficient PartsLedger station_id resource_id required available =
     NotEnoughInventory station_id resource_id required available"
| "spec_insufficient StationCounts station_id resource_id required available =
     NotEnoughComponents station_id resource_id required available"

text \<open>
  The amount a requirement set asks of a key: 0 for a key it does not name.
\<close>

definition required_amount :: "(string \<times> int) list \<Rightarrow> string \<Rightarrow> int" where
  "required_amount reqs key = dict_get (map_of reqs) key 0"

subsection \<open>Predicates on ledgers and order books\<close>

text \<open>
  Every quantity of the three stock ledgers is at least 0; a missing key counts as 0.
\<close>

definition nonneg_dict :: "(string \<rightharpoonup> int) \<Rightarrow> bool" where
  "nonneg_dict d = (\<forall>key. 0 \<le> dict_get d key 0)"

definition quantities_nonneg :: "ledger \<Rightarrow> bool" where
  "quantities_nonneg s =
     (nonneg_dict (INVENTORY_DATA s) \<and> nonneg_dict (PRODUCTION_STATUS s) \<and>
      nonneg_dict (BIKE_INVENTORY s))"

text \<open>
  What may happen to one order between two states: nothing, or the change of its status
  from Pending to Completed. An order book \<open>os'\<close> continues \<open>os\<close> when it keeps every
  position of \<open>os\<close>, each order there changed at most in this way.
\<close>

definition order_step :: "order \<Rightarrow> order \<Rightarrow> bool" where
  "order_step x y = (y = x \<or> (status x = ''Pending'' \<and> y = x\<lparr>status := ''Completed''\<rparr>))"

definition book_history :: "order list \<Rightarrow> order list \<Rightarrow> bool" where
  "book_history os os' =
     (length os \<le> length os' \<and> list_all2 order_step os (take (length os) os'))"

definition is_fulfill :: "operation \<Rightarrow> bool" where
  "is_fulfill op = (case op of Fulfill row_index \<Rightarrow> True | _ \<Rightarrow> False)"

text \<open>
  Every station of the requirement table has a completed count and every model of the
  recipe table has a finished-bike quantity.
\<close>

definition counters_present :: "ledger \<Rightarrow> bool" where
  "counters_present s =
     (list_all (\<lambda>station_key. PRODUCTION_STATUS s station_key \<noteq> None)
        (map fst STATION_REQUIREMENTS) \<and>
      list_all (\<lambda>model. BIKE_INVENTORY s model \<noteq> None) (map fst BIKE_TYPE_PARTS))"

subsection \<open>Sample inputs\<close>

text \<open>Concrete forms and orders on which the properties below are evaluated.\<close>

definition tour_form :: order_form where
  "tour_form =
     \<lparr>customer_name_input = ''A. Rider'', contact_info_input = ''rider@example.org'',
      delivery_address_input = ''1 Mill Lane'', bike_model_combo = ''Tour'',
      bike_size_combo = ''Medium'', bike_color_combo = ''Red'',
      bike_wheels_combo = ''26 inches'', gears_combo = ''Standard Gears'',
      brakes_combo = ''Disc Brakes'', lights_combo = ''LED Lights''\<rparr>"

definition empty_form :: order_form where
  "empty_form = tour_form\<lparr>customer_name_input := [], contact_info_input := [],
     delivery_address_input := []\<rparr>"

definition completed_order :: order where
  "completed_order = (new_order tour_form)\<lparr>status := ''Completed''\<rparr>"

text \<open>
  A ledger with a completed count for a station, \<open>Polishing\<close>, that the requirement
  table does not list, as a loaded data file can produce it.
\<close>

definition polishing_ledger :: ledger where
  "polishing_ledger =
     initial_ledger\<lparr>PRODUCTION_STATUS := (PRODUCTION_STATUS initial_ledger)(''Polishing'' \<mapsto> 0)\<rparr>"

text \<open>
  Ledgers as a loaded data file can leave them: both welding stations completed once; only
  \<open>FrameWelded\<close> among the completed counts; no completed counts at all (a file without
  the \<open>production\<close> section); no finished-bike quantities (a file whose
  \<open>bike_inventory\<close> section is empty).
\<close>

definition welded_ledger :: ledger where
  "welded_ledger =
     initial_ledger\<lparr>PRODUCTION_STATUS :=
       (PRODUCTION_STATUS initial_ledger)(''FrameWelded'' \<mapsto> 1, ''ForkWelded'' \<mapsto> 1)\<rparr>"

definition frame_only_ledger :: ledger where
  "frame_only_ledger = initial_ledger\<lparr>PRODUCTION_STATUS := [''FrameWelded'' \<mapsto> 0]\<rparr>"

definition no_counts_ledger :: ledger where
  "no_counts_ledger = initial_ledger\<lparr>PRODUCTION_STATUS := Map.empty\<rparr>"

definition no_bikes_ledger :: ledger where
  "no_bikes_ledger = initial_ledger\<lparr>BIKE_INVENTORY := Map.empty\<rparr>"

text \<open>
  A sequence of operations.
\<close>

definition sample_operations :: "operation list" where
  "sample_operations =
     [AddStock ''Wheels'' 5, CompleteStation ''FrameWelded'', SubmitOrder tour_form,
      Fulfill 0, Assemble ''Tour'', SubmitOrder empty_form, Fulfill 0, Fulfill 3]"

section \<open>Verified properties\<close>

subsection \<open>The pending row and the order book\<close>

text \<open>
  The assignment to the \<open>row_index\<close>-th pending order is an update of \<^verbatim>\<open>ORDERS\<close> at
  the position of that order: the pending entry that has exactly \<open>row_index\<close> pending
  entries before it.
\<close>

lemma set_completed_nth:
  "row_index < length (pending_orders os) \<Longrightarrow>
   \<exists>i<length os. status (os ! i) = ''Pending'' \<and>
      length (pending_orders (take i os)) = row_index \<and>
      os ! i = pending_orders os ! row_index \<and>
      set_completed os row_index = os[i := (os ! i)\<lparr>status := ''Completed''\<rparr>]"
proof (induction os arbitrary: row_index)
  case Nil
  then show ?case by (simp add: pending_orders_def)
next
  case (Cons x os)
  show ?case
  proof (cases "status x = ''Pending''")
    case False
    with Cons.prems have "row_index < length (pending_orders os)"
      by (simp add: pending_orders_def)
    from Cons.IH [OF this] obtain i where i: "i < length os" "status (os ! i) = ''Pending''"
      "length (pending_orders (take i os)) = row_index" "os ! i = pending_orders os ! row_index"
      "set_completed os row_index = os[i := (os ! i)\<lparr>status := ''Completed''\<rparr>]"
      by blast
    with False show ?thesis
      by (intro exI [of _ "Suc i"]) (simp add: pending_orders_def)
  next
    case True
    show ?thesis
    proof (cases row_index)
      case 0
      with True show ?thesis
        by (intro exI [of _ 0]) (simp add: pending_orders_def)
    next
      case (Suc r)
      with True Cons.prems have "r < length (pending_orders os)"
        by (simp add: pending_orders_def)
      from Cons.IH [OF this] obtain i where i: "i < length os" "status (os ! i) = ''Pending''"
        "length (pending_orders (take i os)) = r" "os ! i = pending_orders os ! r"
        "set_completed os r = os[i := (os ! i)\<lparr>status := ''Completed''\<rparr>]"
        by blast
      with True Suc show ?thesis
        by (intro exI [of _ "Suc i"]) (simp add: pending_orders_def)
    qed
  qed
qed

lemma set_completed_out_of_range:
  "\<not> row_index < length (pending_orders os) \<Longrightarrow> set_completed os row_index = os"
  by (induction os arbitrary: row_index) (auto simp: pending_orders_def split: nat.splits)

subsection \<open>Station completion\<close>

text \<open>
  The keys of a requirement set are distinct, and no station requires itself.
\<close>

lemma station_requirements_facts:
  assumes "map_of STATION_REQUIREMENTS station_key = Some reqs"
  shows "distinct (map fst reqs)" and "station_key \<notin> fst ` set reqs"
  using assms by (auto simp: STATION_REQUIREMENTS_def split: if_splits)

lemma check_requirements_None:
  "check_requirements s station_key reqs = None \<Longrightarrow> (key, amount) \<in> set reqs \<Longrightarrow>
   (case INVENTORY_DATA s key of
      Some have \<Rightarrow> amount \<le> have
    | None \<Rightarrow> (case PRODUCTION_STATUS s key of Some have \<Rightarrow> amount \<le> have | None \<Rightarrow> False))"
  by (induction reqs) (auto split: option.splits if_splits)

lemma check_requirements_resolves:
  assumes "check_requirements s station_key reqs = None"
  shows "fst ` set reqs \<subseteq> dom (INVENTORY_DATA s) \<union> dom (PRODUCTION_STATUS s)"
proof
  fix k
  assume "k \<in> fst ` set reqs"
  then obtain a where "(k, a) \<in> set reqs" by auto
  from check_requirements_None [OF assms this]
  show "k \<in> dom (INVENTORY_DATA s) \<union> dom (PRODUCTION_STATUS s)"
    by (auto split: option.splits)
qed

lemma check_requirements_append:
  "check_requirements s station_key (xs @ ys) =
     (case check_requirements s station_key xs of
        Some e \<Rightarrow> Some e
      | None \<Rightarrow> check_requirements s station_key ys)"
  by (induction xs) (auto split: option.splits)

lemma check_requirements_at:
  assumes "check_requirements s station_key before = None"
  shows "check_requirements s station_key (before @ (req_key, req_amount) # after) =
     (case spec_resolve s req_key of
        None \<Rightarrow> Some (UnknownRequirement req_key)
      | Some src \<Rightarrow>
          if spec_available s src req_key < req_amount
          then Some (spec_insufficient src station_key req_key req_amount
                       (spec_available s src req_key))
          else check_requirements s station_key after)"
  using assms
  by (auto simp: check_requirements_append spec_resolve_def dict_get_def split: option.splits)

lemma deduct_requirements_other_ledgers:
  "BIKE_INVENTORY (snd (deduct_requirements s reqs)) = BIKE_INVENTORY s \<and>
   ORDERS (snd (deduct_requirements s reqs)) = ORDERS s"
  by (induction s reqs rule: deduct_requirements.induct) (auto split: option.splits)

lemma deduct_requirements_no_error:
  "fst ` set reqs \<subseteq> dom (INVENTORY_DATA s) \<union> dom (PRODUCTION_STATUS s) \<Longrightarrow>
   fst (deduct_requirements s reqs) = None"
proof (induction reqs arbitrary: s)
  case Nil
  then show ?case by (simp split: option.splits)
next
  case (Cons r rest)
  obtain k a where r: "r = (k, a)" by (cases r)
  show ?case
  proof (cases "INVENTORY_DATA s k")
    case (Some q)
    let ?s = "s\<lparr>INVENTORY_DATA := (INVENTORY_DATA s)(k \<mapsto> q - a)\<rparr>"
    have "dom (INVENTORY_DATA ?s) = dom (INVENTORY_DATA s)"
      using Some by auto
    with Cons.prems have "fst ` set rest \<subseteq> dom (INVENTORY_DATA ?s) \<union> dom (PRODUCTION_STATUS ?s)"
      by simp
    from Cons.IH [OF this] r Some show ?thesis
      by (simp split: option.splits)
  next
    case None
    with Cons.prems r obtain c where c: "PRODUCTION_STATUS s k = Some c"
      by auto
    let ?s = "s\<lparr>PRODUCTION_STATUS := (PRODUCTION_STATUS s)(k \<mapsto> c - a)\<rparr>"
    have "dom (PRODUCTION_STATUS ?s) = dom (PRODUCTION_STATUS s)"
      using c by auto
    with Cons.prems have "fst ` set rest \<subseteq> dom (INVENTORY_DATA ?s) \<union> dom (PRODUCTION_STATUS ?s)"
      by simp
    from Cons.IH [OF this] r None c show ?thesis
      by (simp split: option.splits)
  qed
qed

lemma required_amount_member:
  "distinct (map fst reqs) \<Longrightarrow> (key, amount) \<in> set reqs \<Longrightarrow> required_amount reqs key = amount"
  by (simp add: required_amount_def dict_get_def)

lemma deduct_requirements_inventory:
  "distinct (map fst reqs) \<Longrightarrow>
   fst ` set reqs \<subseteq> dom (INVENTORY_DATA s) \<union> dom (PRODUCTION_STATUS s) \<Longrightarrow>
   INVENTORY_DATA (snd (deduct_requirements s reqs)) key =
     (case INVENTORY_DATA s key of None \<Rightarrow> None
      | Some q \<Rightarrow> Some (q - required_amount reqs key))"
proof (induction reqs arbitrary: s)
  case Nil
  then show ?case by (simp add: required_amount_def dict_get_def split: option.splits)
next
  case (Cons r rest)
  obtain k a where r: "r = (k, a)" by (cases r)
  have notin: "map_of rest k = None"
    using Cons.prems r by (simp add: map_of_eq_None_iff)
  have dist: "distinct (map fst rest)"
    using Cons.prems by simp
  show ?case
  proof (cases "INVENTORY_DATA s k")
    case (Some q)
    let ?s = "s\<lparr>INVENTORY_DATA := (INVENTORY_DATA s)(k \<mapsto> q - a)\<rparr>"
    have "dom (INVENTORY_DATA ?s) = dom (INVENTORY_DATA s)"
      using Some by auto
    with Cons.prems have "fst ` set rest \<subseteq> dom (INVENTORY_DATA ?s) \<union> dom (PRODUCTION_STATUS ?s)"
      by simp
    from Cons.IH [OF dist this] r Some notin show ?thesis
      by (simp add: required_amount_def dict_get_def split: option.splits)
  next
    case None
    with Cons.prems r obtain c where c: "PRODUCTION_STATUS s k = Some c"
      by auto
    let ?s = "s\<lparr>PRODUCTION_STATUS := (PRODUCTION_STATUS s)(k \<mapsto> c - a)\<rparr>"
    have "dom (PRODUCTION_STATUS ?s) = dom (PRODUCTION_STATUS s)"
      using c by auto
    with Cons.prems have "fst ` set rest \<subseteq> dom (INVENTORY_DATA ?s) \<union> dom (PRODUCTION_STATUS ?s)"
      by simp
    from Cons.IH [OF dist this] r None c notin show ?thesis
      by (simp add: required_amount_def dict_get_def split: option.splits)
  qed
qed

lemma deduct_requirements_production:
  "distinct (map fst reqs) \<Longrightarrow>
   fst ` set reqs \<subseteq> dom (INVENTORY_DATA s) \<union> dom (PRODUCTION_STATUS s) \<Longrightarrow>
   PRODUCTION_STATUS (snd (deduct_requirements s reqs)) key =
     (case INVENTORY_DATA s key of Some q \<Rightarrow> PRODUCTION_STATUS s key
      | None \<Rightarrow>
          (case PRODUCTION_STATUS s key of None \<Rightarrow> None
           | Some c \<Rightarrow> Some (c - required_amount reqs key)))"
proof (induction reqs arbitrary: s)
  case Nil
  then show ?case by (simp add: required_amount_def dict_get_def split: option.splits)
next
  case (Cons r rest)
  obtain k a where r: "r = (k, a)" by (cases r)
  have notin: "map_of rest k = None"
    using Cons.prems r by (simp add: map_of_eq_None_iff)
  have dist: "distinct (map fst rest)"
    using Cons.prems by simp
  show ?case
  proof (cases "INVENTORY_DATA s k")
    case (Some q)
    let ?s = "s\<lparr>INVENTORY_DATA := (INVENTORY_DATA s)(k \<mapsto> q - a)\<rparr>"
    have "dom (INVENTORY_DATA ?s) = dom (INVENTORY_DATA s)"
      using Some by auto
    with Cons.prems have "fst ` set rest \<subseteq> dom (INVENTORY_DATA ?s) \<union> dom (PRODUCTION_STATUS ?s)"
      by simp
    from Cons.IH [OF dist this] r Some notin show ?thesis
      by (simp add: required_amount_def dict_get_def split: option.splits)
  next
    case None
    with Cons.prems r obtain c where c: "PRODUCTION_STATUS s k = Some c"
      by auto
    let ?s = "s\<lparr>PRODUCTION_STATUS := (PRODUCTION_STATUS s)(k \<mapsto> c - a)\<rparr>"
    have "dom (PRODUCTION_STATUS ?s) = dom (PRODUCTION_STATUS s)"
      using c by auto
    with Cons.prems have "fst ` set rest \<subseteq> dom (INVENTORY_DATA ?s) \<union> dom (PRODUCTION_STATUS ?s)"
      by simp
    from Cons.IH [OF dist this] r None c notin show ?thesis
      by (simp add: required_amount_def dict_get_def split: option.splits)
  qed
qed

lemma record_station_completion_failed_check:
  assumes "check_requirements s station_key (station_requirements station_key) = Some e"
  shows "record_station_completion s station_key = (Failure e, s)"
  using assms by (simp add: record_station_completion_def)

lemma record_station_completion_checked:
  assumes "check_requirements s station_key (station_requirements station_key) = None"
  shows "snd (record_station_completion s station_key) =
     (let s' = snd (deduct_requirements s (station_requirements station_key)) in
      case PRODUCTION_STATUS s' station_key of
        None \<Rightarrow> s'
      | Some c \<Rightarrow> s'\<lparr>PRODUCTION_STATUS := (PRODUCTION_STATUS s')(station_key \<mapsto> c + 1)\<rparr>)"
proof -
  have "fst (deduct_requirements s (station_requirements station_key)) = None"
    using deduct_requirements_no_error [OF check_requirements_resolves [OF assms]] .
  then obtain s' where "deduct_requirements s (station_requirements station_key) = (None, s')"
    by (cases "deduct_requirements s (station_requirements station_key)") simp
  with assms show ?thesis
    by (simp add: record_station_completion_def Let_def split: option.splits)
qed

lemma record_station_completion_deducted:
  assumes table: "map_of STATION_REQUIREMENTS station_key = Some reqs"
    and member: "(req_key, req_amount) \<in> set reqs"
    and checked: "check_requirements s station_key reqs = None"
  shows "INVENTORY_DATA (snd (record_station_completion s station_key)) req_key =
           (case INVENTORY_DATA s req_key of None \<Rightarrow> None | Some q \<Rightarrow> Some (q - req_amount))"
    and "PRODUCTION_STATUS (snd (record_station_completion s station_key)) req_key =
           (case INVENTORY_DATA s req_key of
              Some q \<Rightarrow> PRODUCTION_STATUS s req_key
            | None \<Rightarrow>
                (case PRODUCTION_STATUS s req_key of None \<Rightarrow> None
                 | Some c \<Rightarrow> Some (c - req_amount)))"
proof -
  have reqs: "station_requirements station_key = reqs"
    using table by (simp add: station_requirements_def)
  have dist: "distinct (map fst reqs)" and self: "station_key \<notin> fst ` set reqs"
    using station_requirements_facts [OF table] by simp_all
  from self member have other: "req_key \<noteq> station_key"
    by force
  have amount: "required_amount reqs req_key = req_amount"
    using required_amount_member [OF dist member] .
  have resolves: "fst ` set reqs \<subseteq> dom (INVENTORY_DATA s) \<union> dom (PRODUCTION_STATUS s)"
    using check_requirements_resolves [OF checked] .
  let ?d = "snd (deduct_requirements s reqs)"
  have final: "snd (record_station_completion s station_key) =
      (case PRODUCTION_STATUS ?d station_key of
         None \<Rightarrow> ?d
       | Some c \<Rightarrow> ?d\<lparr>PRODUCTION_STATUS := (PRODUCTION_STATUS ?d)(station_key \<mapsto> c + 1)\<rparr>)"
    using record_station_completion_checked [of s station_key] checked reqs
    by (simp add: Let_def)
  have "INVENTORY_DATA (snd (record_station_completion s station_key)) req_key =
      INVENTORY_DATA ?d req_key"
    by (simp add: final split: option.splits)
  with deduct_requirements_inventory [OF dist resolves, of req_key] amount
  show "INVENTORY_DATA (snd (record_station_completion s station_key)) req_key =
           (case INVENTORY_DATA s req_key of None \<Rightarrow> None | Some q \<Rightarrow> Some (q - req_amount))"
    by (simp split: option.splits)
  have "PRODUCTION_STATUS (snd (record_station_completion s station_key)) req_key =
      PRODUCTION_STATUS ?d req_key"
    using other by (simp add: final split: option.splits)
  with deduct_requirements_production [OF dist resolves, of req_key] amount
  show "PRODUCTION_STATUS (snd (record_station_completion s station_key)) req_key =
           (case INVENTORY_DATA s req_key of
              Some q \<Rightarrow> PRODUCTION_STATUS s req_key
            | None \<Rightarrow>
                (case PRODUCTION_STATUS s req_key of None \<Rightarrow> None
                 | Some c \<Rightarrow> Some (c - req_amount)))"
    by (simp split: option.splits)
qed

text \<open>
  C4, as the code has it: for a requirement \<open>(req_key, req_amount)\<close> of a station, once
  every requirement listed before it has passed its check, the key is resolved against the
  parts ledger first and against the completed counts only if it is absent there. If it is
  absent from both, the call fails with the "unknown requirement" warning for that key and
  nothing changes; if the chosen source holds less than the amount, the call fails with
  the shortage warning of that source and nothing changes. When all requirements pass, the
  amount is deducted from that same source, and the other ledger is left as it was at
  that key.
\<close>

theorem record_station_completion_resolution:
  assumes table: "map_of STATION_REQUIREMENTS station_key =
      Some (before @ (req_key, req_amount) # after)"
    and earlier: "check_requirements s station_key before = None"
  shows "(spec_resolve s req_key = None \<longrightarrow>
            record_station_completion s station_key = (Failure (UnknownRequirement req_key), s)) \<and>
         (\<forall>src. spec_resolve s req_key = Some src \<and> spec_available s src req_key < req_amount \<longrightarrow>
            record_station_completion s station_key =
              (Failure (spec_insufficient src station_key req_key req_amount
                          (spec_available s src req_key)), s)) \<and>
         (check_requirements s station_key (before @ (req_key, req_amount) # after) = None \<longrightarrow>
            (\<exists>src. spec_resolve s req_key = Some src \<and>
               req_amount \<le> spec_available s src req_key \<and>
               (case src of
                  PartsLedger \<Rightarrow>
                    INVENTORY_DATA (snd (record_station_completion s station_key)) req_key =
                      Some (spec_available s PartsLedger req_key - req_amount) \<and>
                    PRODUCTION_STATUS (snd (record_station_completion s station_key)) req_key =
                      PRODUCTION_STATUS s req_key
                | StationCounts \<Rightarrow>
                    PRODUCTION_STATUS (snd (record_station_completion s station_key)) req_key =
                      Some (spec_available s StationCounts req_key - req_amount) \<and>
                    INVENTORY_DATA (snd (record_station_completion s station_key)) req_key = None)))"
proof -
  let ?reqs = "before @ (req_key, req_amount) # after"
  have reqs: "station_requirements station_key = ?reqs"
    using table by (simp add: station_requirements_def)
  note at = check_requirements_at [OF earlier, of req_key req_amount after]
  have unknown: "spec_resolve s req_key = None \<longrightarrow>
      record_station_completion s station_key = (Failure (UnknownRequirement req_key), s)"
  proof
    assume "spec_resolve s req_key = None"
    with at have "check_requirements s station_key ?reqs = Some (UnknownRequirement req_key)"
      by simp
    then show "record_station_completion s station_key = (Failure (UnknownRequirement req_key), s)"
      using record_station_completion_failed_check [of s station_key] reqs by simp
  qed
  have short: "\<forall>src. spec_resolve s req_key = Some src \<and> spec_available s src req_key < req_amount \<longrightarrow>
      record_station_completion s station_key =
        (Failure (spec_insufficient src station_key req_key req_amount
                    (spec_available s src req_key)), s)"
  proof (intro allI impI)
    fix src
    assume "spec_resolve s req_key = Some src \<and> spec_available s src req_key < req_amount"
    with at have "check_requirements s station_key ?reqs =
        Some (spec_insufficient src station_key req_key req_amount (spec_available s src req_key))"
      by simp
    then show "record_station_completion s station_key =
        (Failure (spec_insufficient src station_key req_key req_amount
                    (spec_available s src req_key)), s)"
      using record_station_completion_failed_check [of s station_key] reqs by simp
  qed
  have pass: "check_requirements s station_key ?reqs = None \<longrightarrow>
      (\<exists>src. spec_resolve s req_key = Some src \<and>
         req_amount \<le> spec_available s src req_key \<and>
         (case src of
            PartsLedger \<Rightarrow>
              INVENTORY_DATA (snd (record_station_completion s station_key)) req_key =
                Some (spec_available s PartsLedger req_key - req_amount) \<and>
              PRODUCTION_STATUS (snd (record_station_completion s station_key)) req_key =
                PRODUCTION_STATUS s req_key
          | StationCounts \<Rightarrow>
              PRODUCTION_STATUS (snd (record_station_completion s station_key)) req_key =
                Some (spec_available s StationCounts req_key - req_amount) \<and>
              INVENTORY_DATA (snd (record_station_completion s station_key)) req_key = None))"
  proof
    assume checked: "check_requirements s station_key ?reqs = None"
    have member: "(req_key, req_amount) \<in> set ?reqs"
      by simp
    note ded = record_station_completion_deducted [OF table member checked]
    from at checked obtain src where src: "spec_resolve s req_key = Some src"
      and enough: "req_amount \<le> spec_available s src req_key"
      by (auto split: option.splits if_splits)
    show "\<exists>src. spec_resolve s req_key = Some src \<and>
         req_amount \<le> spec_available s src req_key \<and>
         (case src of
            PartsLedger \<Rightarrow>
              INVENTORY_DATA (snd (record_station_completion s station_key)) req_key =
                Some (spec_available s PartsLedger req_key - req_amount) \<and>
              PRODUCTION_STATUS (snd (record_station_completion s station_key)) req_key =
                PRODUCTION_STATUS s req_key
          | StationCounts \<Rightarrow>
              PRODUCTION_STATUS (snd (record_station_completion s station_key)) req_key =
                Some (spec_available s StationCounts req_key - req_amount) \<and>
              INVENTORY_DATA (snd (record_station_completion s station_key)) req_key = None)"
    proof (cases src)
      case PartsLedger
      with src obtain q where "INVENTORY_DATA s req_key = Some q"
        by (auto simp: spec_resolve_def split: if_splits)
      with ded src enough PartsLedger show ?thesis
        by (intro exI [of _ PartsLedger]) (simp add: dict_get_def)
    next
      case StationCounts
      with src obtain c where "INVENTORY_DATA s req_key = None" "PRODUCTION_STATUS s req_key = Some c"
        by (auto simp: spec_resolve_def split: if_splits)
      with ded src enough StationCounts show ?thesis
        by (intro exI [of _ StationCounts]) (simp add: dict_get_def)
    qed
  qed
  from unknown short pass show ?thesis by blast
qed

theorem record_station_completion_resolution_witness:
  "spec_resolve welded_ledger ''ForkWelded'' = Some StationCounts \<and>
   PRODUCTION_STATUS (snd (record_station_completion welded_ledger ''FrontForkAssembly''))
     ''ForkWelded'' = Some 0 \<and>
   INVENTORY_DATA (snd (record_station_completion welded_ledger ''FrontForkAssembly''))
     ''ForkWelded'' = None"
proof -
  have table: "map_of STATION_REQUIREMENTS ''FrontForkAssembly'' =
      Some ([(''FrameWelded'', 1)] @ (''ForkWelded'', 1) # [])"
    by (simp add: STATION_REQUIREMENTS_def)
  have earlier: "check_requirements welded_ledger ''FrontForkAssembly'' [(''FrameWelded'', 1)] = None"
    by (simp add: welded_ledger_def initial_ledger_def initial_inventory_def)
  have checked: "check_requirements welded_ledger ''FrontForkAssembly''
      ([(''FrameWelded'', 1)] @ (''ForkWelded'', 1) # []) = None"
    by (simp add: welded_ledger_def initial_ledger_def initial_inventory_def)
  have resolved: "spec_resolve welded_ledger ''ForkWelded'' = Some StationCounts"
    by (simp add: spec_resolve_def domIff welded_ledger_def initial_ledger_def initial_inventory_def)
  have available: "spec_available welded_ledger StationCounts ''ForkWelded'' = 1"
    by (simp add: dict_get_def welded_ledger_def)
  from record_station_completion_resolution [OF table earlier] checked resolved available
  show ?thesis by auto
qed

text \<open>
  C4 as stated fails: \<open>ForkWelded\<close>, a requirement of \<open>FrontForkAssembly\<close>, is in
  neither ledger, yet the call does not fail with the "unknown requirement" warning for it:
  the requirement listed before it, \<open>FrameWelded\<close>, is short, and that shortage is what the
  call reports.
\<close>

theorem record_station_completion_reports_earlier_shortage:
  "(''ForkWelded'', 1) \<in> set (station_requirements ''FrontForkAssembly'') \<and>
   INVENTORY_DATA frame_only_ledger ''ForkWelded'' = None \<and>
   PRODUCTION_STATUS frame_only_ledger ''ForkWelded'' = None \<and>
   record_station_completion frame_only_ledger ''FrontForkAssembly'' =
     (Failure (NotEnoughComponents ''FrontForkAssembly'' ''FrameWelded'' 1 0), frame_only_ledger) \<and>
   fst (record_station_completion frame_only_ledger ''FrontForkAssembly'') \<noteq>
     Failure (UnknownRequirement ''ForkWelded'')"
  by (simp add: record_station_completion_def station_requirements_def STATION_REQUIREMENTS_def
      frame_only_ledger_def initial_ledger_def initial_inventory_def)

text \<open>
  C5, as the code has it: a station id without an entry in the requirement table has the
  empty requirement set. If the id has no completed count either, the call fails with a
  \<open>KeyError\<close> and the ledgers are unchanged; if it has one, the call succeeds and adds one
  to that count.
\<close>

theorem record_station_completion_unknown_station:
  assumes "map_of STATION_REQUIREMENTS station_key = None"
  shows "record_station_completion s station_key =
     (case PRODUCTION_STATUS s station_key of
        None \<Rightarrow> (Failure (KeyError station_key), s)
      | Some c \<Rightarrow>
          (Success, s\<lparr>PRODUCTION_STATUS := (PRODUCTION_STATUS s)(station_key \<mapsto> c + 1)\<rparr>))"
  using assms by (simp add: record_station_completion_def station_requirements_def)

theorem record_station_completion_unknown_station_witness:
  "record_station_completion initial_ledger ''Polishing'' =
     (Failure (KeyError ''Polishing''), initial_ledger)"
proof -
  have "map_of STATION_REQUIREMENTS ''Polishing'' = None"
    by (simp add: STATION_REQUIREMENTS_def)
  from record_station_completion_unknown_station [OF this, of initial_ledger]
  show ?thesis
    by (simp add: initial_ledger_def initial_production_status_def)
qed

text \<open>
  C5 as stated fails: \<open>Polishing\<close> has no entry in the requirement table, and completing
  it on a ledger that has a count for it succeeds and raises the count from 0 to 1.
\<close>

theorem record_station_completion_unlisted_station_succeeds:
  "map_of STATION_REQUIREMENTS ''Polishing'' = None \<and>
   fst (record_station_completion polishing_ledger ''Polishing'') = Success \<and>
   PRODUCTION_STATUS polishing_ledger ''Polishing'' = Some 0 \<and>
   PRODUCTION_STATUS (snd (record_station_completion polishing_ledger ''Polishing'')) ''Polishing'' = Some 1"
  by (simp add: record_station_completion_def station_requirements_def STATION_REQUIREMENTS_def
      polishing_ledger_def)

subsection \<open>Bike assembly\<close>

lemma bike_type_parts_facts:
  assumes "map_of BIKE_TYPE_PARTS model = Some recipe"
  shows "distinct (map fst recipe)" and "\<forall>(part, needed) \<in> set recipe. 0 < needed"
  using assms by (auto simp: BIKE_TYPE_PARTS_def split: if_splits)

lemma check_parts_None:
  "check_parts s model recipe = None \<Longrightarrow> (part, needed) \<in> set recipe \<Longrightarrow>
   needed \<le> dict_get (INVENTORY_DATA s) part 0"
  by (induction recipe) (auto simp: Let_def split: if_splits)

lemma check_parts_in_stock:
  assumes "check_parts s model recipe = None"
    and "\<forall>(part, needed) \<in> set recipe. 0 < needed"
  shows "fst ` set recipe \<subseteq> dom (INVENTORY_DATA s)"
proof
  fix part
  assume "part \<in> fst ` set recipe"
  then obtain needed where m: "(part, needed) \<in> set recipe" by auto
  with assms(2) have "0 < needed" by auto
  with check_parts_None [OF assms(1) m] show "part \<in> dom (INVENTORY_DATA s)"
    by (auto simp: dict_get_def split: option.splits)
qed

lemma deduct_parts_other_ledgers:
  "BIKE_INVENTORY (snd (deduct_parts s recipe)) = BIKE_INVENTORY s \<and>
   ORDERS (snd (deduct_parts s recipe)) = ORDERS s \<and>
   PRODUCTION_STATUS (snd (deduct_parts s recipe)) = PRODUCTION_STATUS s"
  by (induction s recipe rule: deduct_parts.induct) (auto split: option.splits)

lemma deduct_parts_no_error:
  "fst ` set recipe \<subseteq> dom (INVENTORY_DATA s) \<Longrightarrow> fst (deduct_parts s recipe) = None"
proof (induction recipe arbitrary: s)
  case Nil
  then show ?case by simp
next
  case (Cons r rest)
  obtain part needed where r: "r = (part, needed)" by (cases r)
  with Cons.prems obtain q where q: "INVENTORY_DATA s part = Some q" by auto
  let ?s = "s\<lparr>INVENTORY_DATA := (INVENTORY_DATA s)(part \<mapsto> q - needed)\<rparr>"
  have "dom (INVENTORY_DATA ?s) = dom (INVENTORY_DATA s)"
    using q by auto
  with Cons.prems have "fst ` set rest \<subseteq> dom (INVENTORY_DATA ?s)"
    by simp
  from Cons.IH [OF this] r q show ?case by simp
qed

lemma deduct_parts_inventory:
  "distinct (map fst recipe) \<Longrightarrow> fst ` set recipe \<subseteq> dom (INVENTORY_DATA s) \<Longrightarrow>
   INVENTORY_DATA (snd (deduct_parts s recipe)) key =
     (case INVENTORY_DATA s key of None \<Rightarrow> None
      | Some q \<Rightarrow> Some (q - required_amount recipe key))"
proof (induction recipe arbitrary: s)
  case Nil
  then show ?case by (simp add: required_amount_def dict_get_def split: option.splits)
next
  case (Cons r rest)
  obtain part needed where r: "r = (part, needed)" by (cases r)
  have notin: "map_of rest part = None"
    using Cons.prems r by (simp add: map_of_eq_None_iff)
  have dist: "distinct (map fst rest)"
    using Cons.prems by simp
  from r Cons.prems obtain q where q: "INVENTORY_DATA s part = Some q" by auto
  let ?s = "s\<lparr>INVENTORY_DATA := (INVENTORY_DATA s)(part \<mapsto> q - needed)\<rparr>"
  have "dom (INVENTORY_DATA ?s) = dom (INVENTORY_DATA s)"
    using q by auto
  with Cons.prems have "fst ` set rest \<subseteq> dom (INVENTORY_DATA ?s)"
    by simp
  from Cons.IH [OF dist this] r q notin show ?case
    by (simp add: required_amount_def dict_get_def split: option.splits)
qed

lemma assemble_bike_failed_check:
  assumes "map_of BIKE_TYPE_PARTS model = Some recipe"
    and "check_parts s model recipe = Some e"
  shows "assemble_bike s model = (Failure e, s)"
  using assms by (simp add: assemble_bike_def)

lemma assemble_bike_checked:
  assumes table: "map_of BIKE_TYPE_PARTS model = Some recipe"
    and checked: "check_parts s model recipe = None"
  shows "assemble_bike s model =
     (let s' = snd (deduct_parts s recipe) in
      case BIKE_INVENTORY s model of
        None \<Rightarrow> (Failure (KeyError model), s')
      | Some qty \<Rightarrow> (Success, s'\<lparr>BIKE_INVENTORY := (BIKE_INVENTORY s)(model \<mapsto> qty + 1)\<rparr>))"
proof -
  have "fst (deduct_parts s recipe) = None"
    using deduct_parts_no_error
      [OF check_parts_in_stock [OF checked bike_type_parts_facts(2) [OF table]]] .
  then obtain s' where "deduct_parts s recipe = (None, s')"
    by (cases "deduct_parts s recipe") simp
  with table checked deduct_parts_other_ledgers [of s recipe] show ?thesis
    by (simp add: assemble_bike_def Let_def split: option.splits)
qed

text \<open>
  C3: from a parts ledger with Tubular Steel 20, Wheels 20, Seats 10, Gears 15, Brakes 15
  and Lights 10, and no finished Sport bike, assembling a Sport bike succeeds, sets the
  finished Sport bikes to 1 and leaves Tubular Steel 18, Wheels 18, Seats 9, Gears 14,
  Brakes 14 and Lights 9; nothing else in the ledgers changes.
\<close>

theorem assemble_sport_scenario:
  assumes "INVENTORY_DATA s ''Tubular Steel'' = Some 20" and "INVENTORY_DATA s ''Wheels'' = Some 20"
    and "INVENTORY_DATA s ''Seats'' = Some 10" and "INVENTORY_DATA s ''Gears'' = Some 15"
    and "INVENTORY_DATA s ''Brakes'' = Some 15" and "INVENTORY_DATA s ''Lights'' = Some 10"
    and "BIKE_INVENTORY s ''Sport'' = Some 0"
  shows "assemble_bike s ''Sport'' =
     (Success,
      s\<lparr>INVENTORY_DATA := (INVENTORY_DATA s)(''Tubular Steel'' \<mapsto> 18, ''Wheels'' \<mapsto> 18,
           ''Seats'' \<mapsto> 9, ''Gears'' \<mapsto> 14, ''Brakes'' \<mapsto> 14, ''Lights'' \<mapsto> 9),
        BIKE_INVENTORY := (BIKE_INVENTORY s)(''Sport'' \<mapsto> 1)\<rparr>)"
  using assms by (simp add: assemble_bike_def BIKE_TYPE_PARTS_def dict_get_def)

theorem assemble_sport_scenario_witness:
  "fst (assemble_bike initial_ledger ''Sport'') = Success \<and>
   BIKE_INVENTORY (snd (assemble_bike initial_ledger ''Sport'')) ''Sport'' = Some 1 \<and>
   map (INVENTORY_DATA (snd (assemble_bike initial_ledger ''Sport'')))
     [''Tubular Steel'', ''Wheels'', ''Seats'', ''Gears'', ''Brakes'', ''Lights''] =
     [Some 18, Some 18, Some 9, Some 14, Some 14, Some 9]"
  using assemble_sport_scenario [of initial_ledger]
  by (simp add: initial_ledger_def initial_inventory_def initial_bike_inventory_def)

subsection \<open>Order fulfilment\<close>

lemma mark_completed_no_bike:
  assumes "row_index < length (pending_orders (ORDERS s))"
    and "dict_get (BIKE_INVENTORY s) (bike_model (pending_orders (ORDERS s) ! row_index)) 0 < 1"
  shows "mark_completed s row_index =
     (Failure (NoPreAssembledBikes (bike_model (pending_orders (ORDERS s) ! row_index))), s)"
  using assms by (simp add: mark_completed_def Let_def)

lemma mark_completed_success:
  assumes "row_index < length (pending_orders (ORDERS s))"
    and "1 \<le> dict_get (BIKE_INVENTORY s) (bike_model (pending_orders (ORDERS s) ! row_index)) 0"
  shows "\<exists>i<length (ORDERS s).
      status (ORDERS s ! i) = ''Pending'' \<and>
      length (pending_orders (take i (ORDERS s))) = row_index \<and>
      ORDERS s ! i = pending_orders (ORDERS s) ! row_index \<and>
      mark_completed s row_index =
        (Success,
         s\<lparr>BIKE_INVENTORY := (BIKE_INVENTORY s)
              (bike_model (ORDERS s ! i) \<mapsto> dict_get (BIKE_INVENTORY s) (bike_model (ORDERS s ! i)) 0 - 1),
           ORDERS := (ORDERS s)[i := (ORDERS s ! i)\<lparr>status := ''Completed''\<rparr>]\<rparr>)"
proof -
  from set_completed_nth [OF assms(1)] obtain i where i: "i < length (ORDERS s)"
    "status (ORDERS s ! i) = ''Pending''"
    "length (pending_orders (take i (ORDERS s))) = row_index"
    "ORDERS s ! i = pending_orders (ORDERS s) ! row_index"
    "set_completed (ORDERS s) row_index = (ORDERS s)[i := (ORDERS s ! i)\<lparr>status := ''Completed''\<rparr>]"
    by blast
  with assms show ?thesis
    by (intro exI [of _ i]) (simp add: mark_completed_def Let_def)
qed

lemma tour_scenario:
  assumes "bike_model_combo f = ''Tour''"
  shows "fst (assemble_bike (snd (submit_order initial_ledger f)) ''Tour'') = Success"
    and "fst (mark_completed (run initial_ledger [SubmitOrder f, Assemble ''Tour'']) 0) = Success"
    and "map status (ORDERS (snd (mark_completed (run initial_ledger [SubmitOrder f, Assemble ''Tour'']) 0))) = [''Completed'']"
    and "BIKE_INVENTORY (snd (mark_completed (run initial_ledger [SubmitOrder f, Assemble ''Tour'']) 0)) ''Tour'' = Some 0"
  using assms
  by (simp_all add: submit_order_def assemble_bike_def BIKE_TYPE_PARTS_def dict_get_def
      initial_ledger_def initial_inventory_def initial_bike_inventory_def new_order_def
      mark_completed_def pending_orders_def Let_def)

text \<open>
  C6: for the pending order in row \<open>row_index\<close>, with bike model \<open>m\<close>: when fewer
  than one finished bike of model \<open>m\<close> is on hand, fulfilment fails with the "no
  pre-assembled bikes" warning for \<open>m\<close> and changes nothing; otherwise it succeeds, takes
  exactly one bike of model \<open>m\<close> from the finished bikes and sets the status of that
  order, at its position \<open>i\<close> in the order book, to Completed. In particular, from the
  initial configuration, after an order for a Tour bike is submitted and one Tour bike is
  assembled (successfully), fulfilling the order succeeds and leaves the order Completed and
  no finished Tour bike.
\<close>

theorem mark_completed_pending_order:
  assumes "row_index < length (pending_orders (ORDERS s))"
    and "m = bike_model (pending_orders (ORDERS s) ! row_index)"
    and "bike_model_combo f = ''Tour''"
  shows "(dict_get (BIKE_INVENTORY s) m 0 < 1 \<longrightarrow>
            mark_completed s row_index = (Failure (NoPreAssembledBikes m), s)) \<and>
         (1 \<le> dict_get (BIKE_INVENTORY s) m 0 \<longrightarrow>
            (\<exists>i<length (ORDERS s).
               status (ORDERS s ! i) = ''Pending'' \<and>
               length (pending_orders (take i (ORDERS s))) = row_index \<and>
               ORDERS s ! i = pending_orders (ORDERS s) ! row_index \<and>
               mark_completed s row_index =
                 (Success,
                  s\<lparr>BIKE_INVENTORY := (BIKE_INVENTORY s)(m \<mapsto> dict_get (BIKE_INVENTORY s) m 0 - 1),
                    ORDERS := (ORDERS s)[i := (ORDERS s ! i)\<lparr>status := ''Completed''\<rparr>]\<rparr>))) \<and>
         fst (assemble_bike (snd (submit_order initial_ledger f)) ''Tour'') = Success \<and>
         fst (mark_completed (run initial_ledger [SubmitOrder f, Assemble ''Tour'']) 0) = Success \<and>
         map status (ORDERS (snd (mark_completed
            (run initial_ledger [SubmitOrder f, Assemble ''Tour'']) 0))) = [''Completed''] \<and>
         BIKE_INVENTORY (snd (mark_completed
            (run initial_ledger [SubmitOrder f, Assemble ''Tour'']) 0)) ''Tour'' = Some 0"
proof -
  have no_bike: "dict_get (BIKE_INVENTORY s) m 0 < 1 \<longrightarrow>
      mark_completed s row_index = (Failure (NoPreAssembledBikes m), s)"
    using mark_completed_no_bike [OF assms(1)] assms(2) by simp
  have bike: "1 \<le> dict_get (BIKE_INVENTORY s) m 0 \<longrightarrow>
      (\<exists>i<length (ORDERS s).
         status (ORDERS s ! i) = ''Pending'' \<and>
         length (pending_orders (take i (ORDERS s))) = row_index \<and>
         ORDERS s ! i = pending_orders (ORDERS s) ! row_index \<and>
         mark_completed s row_index =
           (Success,
            s\<lparr>BIKE_INVENTORY := (BIKE_INVENTORY s)(m \<mapsto> dict_get (BIKE_INVENTORY s) m 0 - 1),
              ORDERS := (ORDERS s)[i := (ORDERS s ! i)\<lparr>status := ''Completed''\<rparr>]\<rparr>))"
  proof
    assume "1 \<le> dict_get (BIKE_INVENTORY s) m 0"
    with mark_completed_success [OF assms(1)] assms(2) obtain i where
      "i < length (ORDERS s)" "status (ORDERS s ! i) = ''Pending''"
      "length (pending_orders (take i (ORDERS s))) = row_index"
      "ORDERS s ! i = pending_orders (ORDERS s) ! row_index"
      "mark_completed s row_index =
        (Success,
         s\<lparr>BIKE_INVENTORY := (BIKE_INVENTORY s)
              (bike_model (ORDERS s ! i) \<mapsto> dict_get (BIKE_INVENTORY s) (bike_model (ORDERS s ! i)) 0 - 1),
           ORDERS := (ORDERS s)[i := (ORDERS s ! i)\<lparr>status := ''Completed''\<rparr>]\<rparr>)"
      by auto
    with assms(2) show "\<exists>i<length (ORDERS s).
         status (ORDERS s ! i) = ''Pending'' \<and>
         length (pending_orders (take i (ORDERS s))) = row_index \<and>
         ORDERS s ! i = pending_orders (ORDERS s) ! row_index \<and>
         mark_completed s row_index =
           (Success,
            s\<lparr>BIKE_INVENTORY := (BIKE_INVENTORY s)(m \<mapsto> dict_get (BIKE_INVENTORY s) m 0 - 1),
              ORDERS := (ORDERS s)[i := (ORDERS s ! i)\<lparr>status := ''Completed''\<rparr>]\<rparr>)"
      by (intro exI [of _ i]) simp
  qed
  from no_bike bike tour_scenario [OF assms(3)] show ?thesis by blast
qed

theorem mark_completed_pending_order_witness:
  "mark_completed (snd (submit_order initial_ledger tour_form)) 0 =
     (Failure (NoPreAssembledBikes ''Tour''), snd (submit_order initial_ledger tour_form)) \<and>
   BIKE_INVENTORY (snd (mark_completed
     (run initial_ledger [SubmitOrder tour_form, Assemble ''Tour'']) 0)) ''Tour'' = Some 0"
proof -
  let ?s = "snd (submit_order initial_ledger tour_form)"
  have row: "0 < length (pending_orders (ORDERS ?s))"
    by (simp add: submit_order_def new_order_def pending_orders_def initial_ledger_def)
  have model: "''Tour'' = bike_model (pending_orders (ORDERS ?s) ! 0)"
    by (simp add: submit_order_def new_order_def pending_orders_def tour_form_def initial_ledger_def)
  have form: "bike_model_combo tour_form = ''Tour''"
    by (simp add: tour_form_def)
  have none: "dict_get (BIKE_INVENTORY ?s) ''Tour'' 0 < 1"
    by (simp add: submit_order_def dict_get_def initial_ledger_def initial_bike_inventory_def)
  from mark_completed_pending_order [OF row model form] none show ?thesis
    by blast
qed

text \<open>
  C7, as the code has it: a row that is not a row of the pending list (no such order, or
  the order is already Completed and so not listed) makes the handler return without any
  message: no error is reported and the ledgers are unchanged.
\<close>

theorem mark_completed_not_pending:
  assumes "\<not> row_index < length (pending_orders (ORDERS s))"
  shows "mark_completed s row_index = (NoAction, s)"
  using assms by (simp add: mark_completed_def Let_def)

theorem mark_completed_not_pending_witness:
  "mark_completed (initial_ledger\<lparr>ORDERS := [completed_order]\<rparr>) 0 =
     (NoAction, initial_ledger\<lparr>ORDERS := [completed_order]\<rparr>)"
proof -
  have "\<not> 0 < length (pending_orders (ORDERS (initial_ledger\<lparr>ORDERS := [completed_order]\<rparr>)))"
    by (simp add: pending_orders_def completed_order_def)
  from mark_completed_not_pending [OF this] show ?thesis .
qed

text \<open>
  C7 as stated fails: with an empty order book, and with an order book holding only a
  Completed order, fulfilling row 0 reports no failure at all.
\<close>

theorem mark_completed_no_order_not_found:
  "\<not> is_failure (fst (mark_completed initial_ledger 0)) \<and>
   \<not> is_failure (fst (mark_completed (initial_ledger\<lparr>ORDERS := [completed_order]\<rparr>) 0))"
  by (simp add: mark_completed_def pending_orders_def completed_order_def initial_ledger_def)

subsection \<open>Order submission\<close>

text \<open>
  C8, as the code has it: submitting an order always succeeds and appends exactly one
  order, built from the form, with status Pending, at the end of the order book, whatever
  the fields hold; no other ledger changes.
\<close>

theorem submit_order_appends:
  "submit_order s f = (Success, s\<lparr>ORDERS := ORDERS s @ [new_order f]\<rparr>) \<and>
   status (new_order f) = ''Pending'' \<and>
   length (ORDERS (snd (submit_order s f))) = length (ORDERS s) + 1"
  by (simp add: submit_order_def new_order_def)

theorem submit_order_appends_witness:
  "submit_order initial_ledger tour_form =
     (Success, initial_ledger\<lparr>ORDERS := [new_order tour_form]\<rparr>)"
  using submit_order_appends [of initial_ledger tour_form]
  by (simp add: initial_ledger_def)

text \<open>
  C8 as stated fails: a form whose customer name, contact and address are all empty is
  accepted and its order appended.
\<close>

theorem submit_order_no_validation:
  "customer_name_input empty_form = [] \<and>
   \<not> is_failure (fst (submit_order initial_ledger empty_form)) \<and>
   ORDERS (snd (submit_order initial_ledger empty_form)) = [new_order empty_form]"
  by (simp add: submit_order_def empty_form_def initial_ledger_def)

subsection \<open>Quantities never go below zero\<close>

lemma nonneg_dict_iff: "nonneg_dict d = (\<forall>key q. d key = Some q \<longrightarrow> 0 \<le> q)"
proof
  assume n: "nonneg_dict d"
  show "\<forall>key q. d key = Some q \<longrightarrow> 0 \<le> q"
  proof (intro allI impI)
    fix key q
    assume "d key = Some q"
    with n [unfolded nonneg_dict_def, rule_format, of key] show "0 \<le> q"
      by (simp add: dict_get_def)
  qed
next
  assume "\<forall>key q. d key = Some q \<longrightarrow> 0 \<le> q"
  then show "nonneg_dict d"
    by (auto simp: nonneg_dict_def dict_get_def split: option.splits)
qed

lemma nonneg_dict_update:
  "nonneg_dict d \<Longrightarrow> 0 \<le> q \<Longrightarrow> nonneg_dict (d(key \<mapsto> q))"
  by (simp add: nonneg_dict_iff)

lemma nonneg_dictD: "nonneg_dict d \<Longrightarrow> d key = Some q \<Longrightarrow> 0 \<le> q"
  by (simp add: nonneg_dict_iff)

lemma quantities_nonneg_initial: "quantities_nonneg initial_ledger"
  by (auto simp: quantities_nonneg_def nonneg_dict_iff initial_ledger_def initial_inventory_def
      initial_bike_inventory_def initial_production_status_def split: if_splits)

lemma required_amount_cases:
  assumes "distinct (map fst reqs)"
  shows "(required_amount reqs key = 0 \<and> key \<notin> fst ` set reqs) \<or>
         (key, required_amount reqs key) \<in> set reqs"
proof (cases "map_of reqs key")
  case None
  then have "key \<notin> fst ` set reqs"
    by (simp add: map_of_eq_None_iff)
  moreover from None have "required_amount reqs key = 0"
    by (simp add: required_amount_def dict_get_def)
  ultimately show ?thesis by simp
next
  case (Some a)
  then have "(key, a) \<in> set reqs" by (rule map_of_SomeD)
  with Some show ?thesis
    by (simp add: required_amount_def dict_get_def)
qed

lemma replenish_stock_nonneg:
  assumes "quantities_nonneg s" and "0 \<le> amount"
  shows "quantities_nonneg (snd (replenish_stock s component amount))"
proof (cases "INVENTORY_DATA s component")
  case None
  with assms show ?thesis by (simp add: replenish_stock_def)
next
  case (Some q)
  with assms have "0 \<le> q + amount"
    using nonneg_dictD [of "INVENTORY_DATA s" component q] by (simp add: quantities_nonneg_def)
  with assms Some show ?thesis
    by (simp add: replenish_stock_def quantities_nonneg_def nonneg_dict_update)
qed

lemma deduct_requirements_nonneg:
  assumes nonneg: "quantities_nonneg s"
    and dist: "distinct (map fst reqs)"
    and checked: "check_requirements s station_key reqs = None"
  shows "quantities_nonneg (snd (deduct_requirements s reqs))"
proof -
  note resolves = check_requirements_resolves [OF checked]
  have enough: "(case INVENTORY_DATA s key of
        Some q \<Rightarrow> required_amount reqs key \<le> q
      | None \<Rightarrow> (case PRODUCTION_STATUS s key of Some c \<Rightarrow> required_amount reqs key \<le> c | None \<Rightarrow> True))"
    for key
  proof -
    from required_amount_cases [OF dist, of key] show ?thesis
    proof
      assume "required_amount reqs key = 0 \<and> key \<notin> fst ` set reqs"
      with nonneg show ?thesis
        by (auto simp: quantities_nonneg_def nonneg_dict_iff split: option.splits)
    next
      assume "(key, required_amount reqs key) \<in> set reqs"
      from check_requirements_None [OF checked this] show ?thesis
        by (auto split: option.splits)
    qed
  qed
  have inv: "nonneg_dict (INVENTORY_DATA (snd (deduct_requirements s reqs)))"
    unfolding nonneg_dict_iff
  proof (intro allI impI)
    fix key q
    assume "INVENTORY_DATA (snd (deduct_requirements s reqs)) key = Some q"
    with deduct_requirements_inventory [OF dist resolves, of key] enough [of key]
    show "0 \<le> q" by (auto split: option.splits)
  qed
  have prod: "nonneg_dict (PRODUCTION_STATUS (snd (deduct_requirements s reqs)))"
    unfolding nonneg_dict_iff
  proof (intro allI impI)
    fix key q
    assume "PRODUCTION_STATUS (snd (deduct_requirements s reqs)) key = Some q"
    with deduct_requirements_production [OF dist resolves, of key] enough [of key] nonneg
    show "0 \<le> q"
      by (auto simp: quantities_nonneg_def nonneg_dict_iff split: option.splits)
  qed
  from inv prod nonneg deduct_requirements_other_ledgers [of s reqs] show ?thesis
    by (simp add: quantities_nonneg_def)
qed

lemma station_requirements_distinct: "distinct (map fst (station_requirements station_key))"
proof (cases "map_of STATION_REQUIREMENTS station_key")
  case None
  then show ?thesis by (simp add: station_requirements_def)
next
  case (Some reqs)
  with station_requirements_facts(1) [OF Some] show ?thesis
    by (simp add: station_requirements_def)
qed

lemma record_station_completion_nonneg:
  assumes nonneg: "quantities_nonneg s"
  shows "quantities_nonneg (snd (record_station_completion s station_key))"
proof (cases "check_requirements s station_key (station_requirements station_key)")
  case (Some e)
  with nonneg record_station_completion_failed_check [OF Some] show ?thesis by simp
next
  case None
  let ?d = "snd (deduct_requirements s (station_requirements station_key))"
  have d: "quantities_nonneg ?d"
    using deduct_requirements_nonneg [OF nonneg station_requirements_distinct None] .
  show ?thesis
  proof (cases "PRODUCTION_STATUS ?d station_key")
    case None2: None
    with record_station_completion_checked [OF None] d show ?thesis
      by (simp add: Let_def)
  next
    case (Some c)
    with d have "0 \<le> c + 1"
      using nonneg_dictD [of "PRODUCTION_STATUS ?d" station_key c]
      by (simp add: quantities_nonneg_def)
    with record_station_completion_checked [OF None] d Some show ?thesis
      by (simp add: Let_def quantities_nonneg_def nonneg_dict_update)
  qed
qed

lemma deduct_parts_nonneg:
  assumes nonneg: "quantities_nonneg s"
    and dist: "distinct (map fst recipe)"
    and positive: "\<forall>(part, needed) \<in> set recipe. 0 < needed"
    and checked: "check_parts s model recipe = None"
  shows "quantities_nonneg (snd (deduct_parts s recipe))"
proof -
  note in_stock = check_parts_in_stock [OF checked positive]
  have inv: "nonneg_dict (INVENTORY_DATA (snd (deduct_parts s recipe)))"
    unfolding nonneg_dict_iff
  proof (intro allI impI)
    fix key q'
    assume after: "INVENTORY_DATA (snd (deduct_parts s recipe)) key = Some q'"
    with deduct_parts_inventory [OF dist in_stock, of key] obtain q where
      q: "INVENTORY_DATA s key = Some q" "q' = q - required_amount recipe key"
      by (auto split: option.splits)
    from required_amount_cases [OF dist, of key] show "0 \<le> q'"
    proof
      assume "required_amount recipe key = 0 \<and> key \<notin> fst ` set recipe"
      with q nonneg show ?thesis
        by (auto simp: quantities_nonneg_def nonneg_dict_iff)
    next
      assume "(key, required_amount recipe key) \<in> set recipe"
      from check_parts_None [OF checked this] q show ?thesis
        by (simp add: dict_get_def)
    qed
  qed
  with nonneg deduct_parts_other_ledgers [of s recipe] show ?thesis
    by (simp add: quantities_nonneg_def)
qed

lemma assemble_bike_nonneg:
  assumes nonneg: "quantities_nonneg s"
  shows "quantities_nonneg (snd (assemble_bike s model))"
proof (cases "map_of BIKE_TYPE_PARTS model")
  case None
  with nonneg show ?thesis by (simp add: assemble_bike_def)
next
  case table: (Some recipe)
  show ?thesis
  proof (cases "check_parts s model recipe")
    case (Some e)
    with nonneg assemble_bike_failed_check [OF table Some] show ?thesis by simp
  next
    case None
    let ?d = "snd (deduct_parts s recipe)"
    have d: "quantities_nonneg ?d"
      using deduct_parts_nonneg [OF nonneg bike_type_parts_facts [OF table] None] .
    show ?thesis
    proof (cases "BIKE_INVENTORY s model")
      case None2: None
      with assemble_bike_checked [OF table None] d show ?thesis
        by (simp add: Let_def)
    next
      case (Some qty)
      with nonneg have "0 \<le> qty + 1"
        using nonneg_dictD [of "BIKE_INVENTORY s" model qty]
        by (simp add: quantities_nonneg_def)
      with assemble_bike_checked [OF table None] d Some nonneg show ?thesis
        by (simp add: Let_def quantities_nonneg_def nonneg_dict_update)
    qed
  qed
qed

lemma submit_order_nonneg:
  "quantities_nonneg s \<Longrightarrow> quantities_nonneg (snd (submit_order s f))"
  by (simp add: submit_order_def quantities_nonneg_def)

lemma mark_completed_nonneg:
  assumes "quantities_nonneg s"
  shows "quantities_nonneg (snd (mark_completed s row_index))"
  using assms
  by (auto simp: mark_completed_def Let_def quantities_nonneg_def intro!: nonneg_dict_update)

lemma apply_operation_nonneg:
  assumes "quantities_nonneg s" and "valid_operation op"
  shows "quantities_nonneg (snd (apply_operation s op))"
  using assms
  by (cases op)
    (simp_all add: replenish_stock_nonneg record_station_completion_nonneg assemble_bike_nonneg
      submit_order_nonneg mark_completed_nonneg)

lemma run_nonneg:
  "quantities_nonneg s \<Longrightarrow> list_all valid_operation ops \<Longrightarrow> quantities_nonneg (run s ops)"
  by (induction ops arbitrary: s) (simp_all add: apply_operation_nonneg)

lemma sample_run:
  "INVENTORY_DATA (run initial_ledger sample_operations) ''Tubular Steel'' = Some 15"
  "PRODUCTION_STATUS (run initial_ledger sample_operations) ''FrameWelded'' = Some 1"
  "BIKE_INVENTORY (run initial_ledger sample_operations) ''Tour'' = Some 0"
  by (simp_all add: sample_operations_def replenish_stock_def record_station_completion_def
      station_requirements_def STATION_REQUIREMENTS_def assemble_bike_def BIKE_TYPE_PARTS_def
      submit_order_def new_order_def mark_completed_def pending_orders_def dict_get_def Let_def
      tour_form_def empty_form_def initial_ledger_def initial_inventory_def
      initial_bike_inventory_def initial_production_status_def)

text \<open>
  C2: in every state reached from the initial configuration by a sequence of stock
  additions (with an amount the spin box can hold), station completions, assemblies, order
  submissions and fulfilments, whatever their outcomes, every quantity of the parts ledger,
  every completed count and every finished-bike quantity is at least 0.
\<close>

theorem reachable_quantities_nonneg:
  assumes "list_all valid_operation ops"
    and "s = run initial_ledger ops"
  shows "(\<forall>part q. INVENTORY_DATA s part = Some q \<longrightarrow> 0 \<le> q) \<and>
         (\<forall>station q. PRODUCTION_STATUS s station = Some q \<longrightarrow> 0 \<le> q) \<and>
         (\<forall>model q. BIKE_INVENTORY s model = Some q \<longrightarrow> 0 \<le> q)"
  using run_nonneg [OF quantities_nonneg_initial assms(1)] assms(2)
  by (simp add: quantities_nonneg_def nonneg_dict_iff)

theorem reachable_quantities_nonneg_witness:
  "list_all valid_operation sample_operations \<and>
   INVENTORY_DATA (run initial_ledger sample_operations) ''Tubular Steel'' = Some 15 \<and>
   PRODUCTION_STATUS (run initial_ledger sample_operations) ''FrameWelded'' = Some 1 \<and>
   BIKE_INVENTORY (run initial_ledger sample_operations) ''Tour'' = Some 0 \<and>
   (0::int) \<le> 15 \<and> (0::int) \<le> 1 \<and> (0::int) \<le> 0"
proof -
  have valid: "list_all valid_operation sample_operations"
    by (simp add: sample_operations_def)
  from reachable_quantities_nonneg [OF valid refl] sample_run
  have "(0::int) \<le> 15 \<and> (0::int) \<le> 1 \<and> (0::int) \<le> 0"
    by blast
  with valid sample_run show ?thesis
    by blast
qed

subsection \<open>The order book is an append-only history\<close>

lemma book_history_nth:
  "book_history os os' =
     (length os \<le> length os' \<and> (\<forall>i<length os. order_step (os ! i) (os' ! i)))"
  by (auto simp: book_history_def list_all2_conv_all_nth)

lemma order_step_trans: "order_step x y \<Longrightarrow> order_step y z \<Longrightarrow> order_step x z"
  by (auto simp: order_step_def)

lemma book_history_refl: "book_history os os"
  by (simp add: book_history_nth order_step_def)

lemma book_history_trans:
  assumes "book_history os os'" and "book_history os' os''"
  shows "book_history os os''"
  unfolding book_history_nth
proof (intro conjI allI impI)
  from assms show "length os \<le> length os''"
    by (simp add: book_history_nth)
next
  fix i
  assume i: "i < length os"
  with assms have "order_step (os ! i) (os' ! i)" "order_step (os' ! i) (os'' ! i)"
    by (simp_all add: book_history_nth)
  then show "order_step (os ! i) (os'' ! i)"
    by (rule order_step_trans)
qed

lemma book_history_append: "book_history os (os @ [x])"
  by (simp add: book_history_nth order_step_def nth_append)

lemma book_history_completed:
  "i < length os \<Longrightarrow> status (os ! i) = ''Pending'' \<Longrightarrow>
   book_history os (os[i := (os ! i)\<lparr>status := ''Completed''\<rparr>])"
  by (simp add: book_history_nth order_step_def nth_list_update)

lemma record_station_completion_orders:
  "ORDERS (snd (record_station_completion s station_key)) = ORDERS s"
  using deduct_requirements_other_ledgers [of s "station_requirements station_key"]
  by (auto simp: record_station_completion_def Let_def split: option.splits prod.splits)

lemma assemble_bike_orders: "ORDERS (snd (assemble_bike s model)) = ORDERS s"
proof (cases "map_of BIKE_TYPE_PARTS model")
  case None
  then show ?thesis by (simp add: assemble_bike_def)
next
  case (Some recipe)
  with deduct_parts_other_ledgers [of s recipe] show ?thesis
    by (auto simp: assemble_bike_def split: option.splits prod.splits)
qed

lemma replenish_stock_orders: "ORDERS (snd (replenish_stock s component amount)) = ORDERS s"
  by (simp add: replenish_stock_def split: option.splits)

lemma mark_completed_orders:
  "ORDERS (snd (mark_completed s row_index)) = ORDERS s \<or>
   (fst (mark_completed s row_index) = Success \<and>
    (\<exists>i<length (ORDERS s). status (ORDERS s ! i) = ''Pending'' \<and>
       ORDERS (snd (mark_completed s row_index)) =
         (ORDERS s)[i := (ORDERS s ! i)\<lparr>status := ''Completed''\<rparr>]))"
proof (cases "row_index < length (pending_orders (ORDERS s))")
  case False
  then show ?thesis by (simp add: mark_completed_def Let_def)
next
  case True
  from set_completed_nth [OF True] obtain i where "i < length (ORDERS s)"
    "status (ORDERS s ! i) = ''Pending''"
    "set_completed (ORDERS s) row_index = (ORDERS s)[i := (ORDERS s ! i)\<lparr>status := ''Completed''\<rparr>]"
    by blast
  then show ?thesis
    by (auto simp: mark_completed_def Let_def)
qed

lemma apply_operation_orders:
  "(\<forall>i<length (ORDERS s). ORDERS (snd (apply_operation s op)) ! i = ORDERS s ! i) \<or>
   (is_fulfill op \<and> fst (apply_operation s op) = Success)"
proof (cases op)
  case (AddStock component amount)
  then show ?thesis by (simp add: replenish_stock_orders)
next
  case (CompleteStation station_key)
  then show ?thesis by (simp add: record_station_completion_orders)
next
  case (Assemble model)
  then show ?thesis by (simp add: assemble_bike_orders)
next
  case (SubmitOrder f)
  then show ?thesis by (simp add: submit_order_def nth_append)
next
  case (Fulfill row_index)
  with mark_completed_orders [of s row_index] show ?thesis
    by (auto simp: is_fulfill_def)
qed

lemma apply_operation_history:
  "book_history (ORDERS s) (ORDERS (snd (apply_operation s op)))"
proof (cases op)
  case (AddStock component amount)
  then show ?thesis by (simp add: replenish_stock_orders book_history_refl)
next
  case (CompleteStation station_key)
  then show ?thesis by (simp add: record_station_completion_orders book_history_refl)
next
  case (Assemble model)
  then show ?thesis by (simp add: assemble_bike_orders book_history_refl)
next
  case (SubmitOrder f)
  then show ?thesis by (simp add: submit_order_def book_history_append)
next
  case (Fulfill row_index)
  with mark_completed_orders [of s row_index] show ?thesis
    by (auto simp: book_history_refl book_history_completed)
qed

lemma run_history: "book_history (ORDERS s) (ORDERS (run s ops))"
proof (induction ops arbitrary: s)
  case Nil
  show ?case by (simp add: book_history_refl)
next
  case (Cons op ops)
  from apply_operation_history [of s op] Cons [of "snd (apply_operation s op)"]
  show ?case by (simp add: book_history_trans)
qed

text \<open>
  C9: over every sequence of operations, from any state, the order book keeps every
  position it had: it never gets shorter, and the order at an old position is either the
  same order or the same order with its status changed from Pending to Completed, so new
  orders only appear after the old ones and a Completed order stays Completed. A single
  operation leaves every existing order as it was unless it is a fulfilment that succeeds.
\<close>

theorem order_book_append_only:
  assumes "s' = run s ops"
  shows "length (ORDERS s) \<le> length (ORDERS s') \<and>
         (\<forall>i<length (ORDERS s).
            ORDERS s' ! i = ORDERS s ! i \<or>
            (status (ORDERS s ! i) = ''Pending'' \<and>
             ORDERS s' ! i = (ORDERS s ! i)\<lparr>status := ''Completed''\<rparr>)) \<and>
         (\<forall>i<length (ORDERS s).
            status (ORDERS s ! i) = ''Completed'' \<longrightarrow> status (ORDERS s' ! i) = ''Completed'') \<and>
         ((\<forall>i<length (ORDERS s). ORDERS (snd (apply_operation s op)) ! i = ORDERS s ! i) \<or>
          (is_fulfill op \<and> fst (apply_operation s op) = Success))"
proof -
  from run_history [of s ops] assms
  have len: "length (ORDERS s) \<le> length (ORDERS s')"
    and step: "\<forall>i<length (ORDERS s). order_step (ORDERS s ! i) (ORDERS s' ! i)"
    by (simp_all add: book_history_nth)
  from step have changes: "\<forall>i<length (ORDERS s).
      ORDERS s' ! i = ORDERS s ! i \<or>
      (status (ORDERS s ! i) = ''Pending'' \<and>
       ORDERS s' ! i = (ORDERS s ! i)\<lparr>status := ''Completed''\<rparr>)"
    by (simp add: order_step_def)
  from step have stays: "\<forall>i<length (ORDERS s).
      status (ORDERS s ! i) = ''Completed'' \<longrightarrow> status (ORDERS s' ! i) = ''Completed''"
    by (auto simp: order_step_def)
  from len changes stays apply_operation_orders [of s op] show ?thesis
    by blast
qed

theorem order_book_append_only_witness:
  "length (ORDERS (initial_ledger\<lparr>ORDERS := [completed_order]\<rparr>)) = 1 \<and>
   ORDERS (run (initial_ledger\<lparr>ORDERS := [completed_order]\<rparr>) sample_operations) ! 0 =
     completed_order"
proof -
  let ?s = "initial_ledger\<lparr>ORDERS := [completed_order]\<rparr>"
  have orders: "ORDERS ?s = [completed_order]"
    by simp
  have "\<forall>i<length (ORDERS ?s).
      ORDERS (run ?s sample_operations) ! i = ORDERS ?s ! i \<or>
      (status (ORDERS ?s ! i) = ''Pending'' \<and>
       ORDERS (run ?s sample_operations) ! i = (ORDERS ?s ! i)\<lparr>status := ''Completed''\<rparr>)"
    using order_book_append_only [OF refl, of ?s sample_operations "Fulfill 0"] by blast
  then have "ORDERS (run ?s sample_operations) ! 0 = completed_order \<or>
      status completed_order = ''Pending''"
    unfolding orders by auto
  then show ?thesis
    by (simp add: completed_order_def)
qed

subsection \<open>Failures and the state they leave\<close>

text \<open>
  A failed station completion leaves the ledgers as they were when the station has a
  completed count, a failed assembly when the model has a finished-bike quantity, and a
  failed fulfilment always. The counters are there in the initial configuration and the
  five operations keep them, so in every state reached from it a failure changes nothing.
\<close>

lemma record_station_completion_atomic:
  assumes count: "PRODUCTION_STATUS s station_key \<noteq> None"
    and failed: "record_station_completion s station_key = (Failure e, s')"
  shows "s' = s"
proof (cases "check_requirements s station_key (station_requirements station_key)")
  case (Some e')
  with failed record_station_completion_failed_check [OF Some] show ?thesis by simp
next
  case None
  let ?reqs = "station_requirements station_key"
  have "fst (deduct_requirements s ?reqs) = None"
    using deduct_requirements_no_error [OF check_requirements_resolves [OF None]] .
  then obtain d where d: "deduct_requirements s ?reqs = (None, d)"
    by (cases "deduct_requirements s ?reqs") simp
  from count
    deduct_requirements_production
      [OF station_requirements_distinct check_requirements_resolves [OF None], of station_key]
  obtain c where "PRODUCTION_STATUS d station_key = Some c"
    by (auto simp: d split: option.splits)
  with None d have "fst (record_station_completion s station_key) = Success"
    by (simp add: record_station_completion_def Let_def)
  with failed show ?thesis by simp
qed

lemma assemble_bike_atomic:
  assumes count: "BIKE_INVENTORY s model \<noteq> None"
    and failed: "assemble_bike s model = (Failure e, s')"
  shows "s' = s"
proof (cases "map_of BIKE_TYPE_PARTS model")
  case None
  with failed show ?thesis by (simp add: assemble_bike_def)
next
  case table: (Some recipe)
  show ?thesis
  proof (cases "check_parts s model recipe")
    case (Some e')
    with failed assemble_bike_failed_check [OF table Some] show ?thesis by simp
  next
    case None
    with count failed assemble_bike_checked [OF table None] show ?thesis
      by (auto simp: Let_def)
  qed
qed

lemma mark_completed_atomic:
  assumes "mark_completed s row_index = (Failure e, s')"
  shows "s' = s"
  using assms by (auto simp: mark_completed_def Let_def split: if_splits)

lemma counters_present_initial: "counters_present initial_ledger"
  by (simp add: counters_present_def STATION_REQUIREMENTS_def BIKE_TYPE_PARTS_def
      initial_ledger_def initial_production_status_def initial_bike_inventory_def)

lemma deduct_requirements_keeps_counters:
  "PRODUCTION_STATUS s key \<noteq> None \<Longrightarrow>
   PRODUCTION_STATUS (snd (deduct_requirements s reqs)) key \<noteq> None"
  by (induction s reqs rule: deduct_requirements.induct) (auto split: option.splits)

lemma record_station_completion_keeps_counters:
  "PRODUCTION_STATUS s key \<noteq> None \<Longrightarrow>
   PRODUCTION_STATUS (snd (record_station_completion s station_key)) key \<noteq> None"
  "BIKE_INVENTORY (snd (record_station_completion s station_key)) = BIKE_INVENTORY s"
  using deduct_requirements_keeps_counters [of s key "station_requirements station_key"]
    deduct_requirements_other_ledgers [of s "station_requirements station_key"]
  by (auto simp: record_station_completion_def Let_def split: option.splits prod.splits)

lemma assemble_bike_keeps_counters:
  "PRODUCTION_STATUS (snd (assemble_bike s model)) = PRODUCTION_STATUS s"
  "BIKE_INVENTORY s key \<noteq> None \<Longrightarrow> BIKE_INVENTORY (snd (assemble_bike s model)) key \<noteq> None"
proof -
  show "PRODUCTION_STATUS (snd (assemble_bike s model)) = PRODUCTION_STATUS s"
  proof (cases "map_of BIKE_TYPE_PARTS model")
    case None
    then show ?thesis by (simp add: assemble_bike_def)
  next
    case (Some recipe)
    with deduct_parts_other_ledgers [of s recipe] show ?thesis
      by (auto simp: assemble_bike_def split: option.splits prod.splits)
  qed
  show "BIKE_INVENTORY s key \<noteq> None \<Longrightarrow> BIKE_INVENTORY (snd (assemble_bike s model)) key \<noteq> None"
  proof (cases "map_of BIKE_TYPE_PARTS model")
    case None
    then show "BIKE_INVENTORY s key \<noteq> None \<Longrightarrow> ?thesis" by (simp add: assemble_bike_def)
  next
    case (Some recipe)
    with deduct_parts_other_ledgers [of s recipe]
    show "BIKE_INVENTORY s key \<noteq> None \<Longrightarrow> ?thesis"
      by (auto simp: assemble_bike_def split: option.splits prod.splits)
  qed
qed

lemma apply_operation_keeps_counters:
  assumes "counters_present s"
  shows "counters_present (snd (apply_operation s op))"
proof (cases op)
  case (AddStock component amount)
  with assms show ?thesis
    by (simp add: counters_present_def replenish_stock_def split: option.splits)
next
  case (CompleteStation station_key)
  with assms show ?thesis
    unfolding counters_present_def list_all_iff
    by (auto simp del: not_None_eq simp: record_station_completion_keeps_counters)
next
  case (Assemble model)
  with assms show ?thesis
    unfolding counters_present_def list_all_iff
    by (auto simp del: not_None_eq simp: assemble_bike_keeps_counters)
next
  case (SubmitOrder f)
  with assms show ?thesis
    by (simp add: counters_present_def submit_order_def)
next
  case (Fulfill row_index)
  with assms show ?thesis
    by (simp add: counters_present_def mark_completed_def Let_def list_all_iff)
qed

lemma run_keeps_counters: "counters_present s \<Longrightarrow> counters_present (run s ops)"
  by (induction ops arbitrary: s) (simp_all add: apply_operation_keeps_counters)

lemma failure_atomic_with_counters:
  assumes present: "counters_present s"
    and op: "op = CompleteStation station_key \<or> op = Assemble model \<or> op = Fulfill row_index"
    and failed: "apply_operation s op = (Failure e, s')"
  shows "s' = s"
proof -
  from op consider (station) "op = CompleteStation station_key" | (assemble) "op = Assemble model"
    | (fulfill) "op = Fulfill row_index"
    by blast
  then show ?thesis
  proof cases
    case station
    show ?thesis
    proof (cases "PRODUCTION_STATUS s station_key")
      case (Some c)
      with station failed record_station_completion_atomic [of s station_key e s']
      show ?thesis by simp
    next
      case None
      with present have "station_key \<notin> fst ` set STATION_REQUIREMENTS"
        by (auto simp: counters_present_def list_all_iff)
      then have "map_of STATION_REQUIREMENTS station_key = None"
        by (simp add: map_of_eq_None_iff)
      then have "station_requirements station_key = []"
        by (simp add: station_requirements_def)
      with station failed None show ?thesis
        by (simp add: record_station_completion_def)
    qed
  next
    case assemble
    show ?thesis
    proof (cases "BIKE_INVENTORY s model")
      case (Some qty)
      with assemble failed assemble_bike_atomic [of s model e s'] show ?thesis by simp
    next
      case None
      with present have "model \<notin> fst ` set BIKE_TYPE_PARTS"
        by (auto simp: counters_present_def list_all_iff)
      then have "map_of BIKE_TYPE_PARTS model = None"
        by (simp add: map_of_eq_None_iff)
      with assemble failed show ?thesis
        by (simp add: assemble_bike_def)
    qed
  next
    case fulfill
    with failed mark_completed_atomic [of s row_index e s'] show ?thesis by simp
  qed
qed

lemma reachable_failure_atomic:
  assumes "op = CompleteStation station_key \<or> op = Assemble model \<or> op = Fulfill row_index"
    and "apply_operation (run initial_ledger ops) op = (Failure e, s')"
  shows "s' = run initial_ledger ops"
  using failure_atomic_with_counters [OF run_keeps_counters [OF counters_present_initial] assms] .

text \<open>
  C1 does not hold of the code in every ledger state. Where the completed count of the
  station is missing, completing \<open>FrameWelded\<close> first deducts its two units of Tubular
  Steel and then fails with a \<open>KeyError\<close> at the final increment; where the finished-bike
  quantity of the model is missing, assembling a Sport bike first deducts its parts and then
  fails in the same way. In both cases the call fails and the parts ledger is not what it
  was before the call.
\<close>

theorem failure_after_deduction:
  "fst (record_station_completion no_counts_ledger ''FrameWelded'') =
     Failure (KeyError ''FrameWelded'') \<and>
   INVENTORY_DATA no_counts_ledger ''Tubular Steel'' = Some 20 \<and>
   INVENTORY_DATA (snd (record_station_completion no_counts_ledger ''FrameWelded''))
     ''Tubular Steel'' = Some 18 \<and>
   fst (assemble_bike no_bikes_ledger ''Sport'') = Failure (KeyError ''Sport'') \<and>
   INVENTORY_DATA no_bikes_ledger ''Wheels'' = Some 20 \<and>
   INVENTORY_DATA (snd (assemble_bike no_bikes_ledger ''Sport'')) ''Wheels'' = Some 18"
  by (simp add: record_station_completion_def station_requirements_def STATION_REQUIREMENTS_def
      assemble_bike_def BIKE_TYPE_PARTS_def dict_get_def no_counts_ledger_def no_bikes_ledger_def
      initial_ledger_def initial_inventory_def)

subsection \<open>User management\<close>

text \<open>
  C10: deleting the user \<open>admin\<close> is always rejected, with the "cannot delete" warning
  when the account exists and with "user not found" otherwise, and the user database
  stays as it was, whatever the confirmation dialog would answer.
\<close>

theorem delete_user_admin_rejected:
  "delete_user USER_DB ''admin'' confirmed =
     (Failure (if USER_DB ''admin'' = None then UserNotFound ''admin'' else CannotDeleteAdmin),
      USER_DB)"
  by (simp add: delete_user_def)

theorem delete_user_admin_rejected_witness:
  "delete_user initial_user_db ''admin'' True = (Failure CannotDeleteAdmin, initial_user_db)"
  using delete_user_admin_rejected [of initial_user_db True]
  by (simp add: initial_user_db_def)

end
